theory Spec2Isabelle
  imports Main
begin

section \<open>Python strings\<close>

text \<open>
  A Python \<open>str\<close> is a sequence of Unicode code points and \<open>len\<close> counts code points,
  so a string is a list of code points. \<open>str\<close> reads an ASCII literal.
\<close>

type_synonym pystr = "nat list"

definition str :: "string \<Rightarrow> pystr" where
  "str s = map of_char s"

text \<open>
  The whitespace of \<open>str.strip()\<close>, \<open>str.isspace()\<close> and of \<open>\s\<close> in a \<open>re\<close> pattern over
  \<open>str\<close>: all three test \<open>Py_UNICODE_ISSPACE\<close>. The non-breaking space U+00A0 (160) is
  one of them.
\<close>

definition isspace :: "nat \<Rightarrow> bool" where
  "isspace c \<longleftrightarrow>
     (9 \<le> c \<and> c \<le> 13) \<or> (28 \<le> c \<and> c \<le> 32) \<or> c = 133 \<or> c = 160 \<or> c = 5760 \<or>
     (8192 \<le> c \<and> c \<le> 8202) \<or> c = 8232 \<or> c = 8233 \<or> c = 8239 \<or> c = 8287 \<or>
     c = 12288"

text \<open>\<open>s.strip(chars)\<close>: drop the characters of the set at both ends.\<close>

definition strip_chars :: "(nat \<Rightarrow> bool) \<Rightarrow> pystr \<Rightarrow> pystr" where
  "strip_chars P s = rev (dropWhile P (rev (dropWhile P s)))"

text \<open>\<open>s.strip()\<close>.\<close>

definition strip :: "pystr \<Rightarrow> pystr" where
  "strip s = strip_chars isspace s"

text \<open>
  \<open>str.lower()\<close> follows the Unicode case tables (and is context sensitive), which are
  not part of the program: the functions below take it as the parameter \<open>lw\<close>, and every
  theorem holds for any such function. \<open>ascii_lower\<close> is what \<open>str.lower()\<close> does on
  ASCII strings; it instantiates the parameter in concrete runs.
\<close>

definition ascii_lower :: "pystr \<Rightarrow> pystr" where
  "ascii_lower s = map (\<lambda>c. if 65 \<le> c \<and> c \<le> 90 then c + 32 else c) s"

section \<open>sanitize_filename\<close>

definition untitled :: pystr where
  "untitled = str ''untitled''"

text \<open>\<open>re.sub(r'\s+', '_', filename)\<close>: each maximal run of whitespace becomes one \<open>_\<close> (95).\<close>

function re_sub_spaces :: "pystr \<Rightarrow> pystr" where
  "re_sub_spaces [] = []"
| "re_sub_spaces (c # cs) =
     (if isspace c then 95 # re_sub_spaces (dropWhile isspace cs)
      else c # re_sub_spaces cs)"
  by pat_completeness auto
termination
  by (relation "measure length") (auto simp: length_dropWhile_le less_Suc_eq_le)

text \<open>The character class \<open>[\\/*?:"<>|]\<close>: backslash, slash, star, question mark, colon,
  double quote, less, greater, bar.\<close>

definition forbidden_chars :: "nat list" where
  "forbidden_chars = [92, 47, 42, 63, 58, 34, 60, 62, 124]"

text \<open>\<open>re.sub(r'[\\/*?:"<>|]', '', filename)\<close>.\<close>

definition re_sub_forbidden :: "pystr \<Rightarrow> pystr" where
  "re_sub_forbidden s = filter (\<lambda>c. c \<notin> set forbidden_chars) s"

text \<open>Lines 16 to 19 of \<open>sanitize_filename\<close>: strip, replace, remove, cut at 200.\<close>

definition sanitize_transform :: "pystr \<Rightarrow> pystr" where
  "sanitize_transform filename = take 200 (re_sub_forbidden (re_sub_spaces (strip filename)))"

definition sanitize_filename :: "(pystr \<Rightarrow> pystr) \<Rightarrow> pystr \<Rightarrow> pystr" where
  "sanitize_filename lw filename =
     (if filename = [] then untitled
      else let filename' = sanitize_transform filename in
        if filename' = [] \<or> strip_chars (\<lambda>c. c = 46) filename' = [] \<or> lw filename' = untitled
        then untitled
        else filename')"

section \<open>The parsed document\<close>

text \<open>
  What \<open>BeautifulSoup(response.text, 'html.parser')\<close> builds, as far as the program reads
  it. A \<open>Tag\<close> has its name, its \<open>class\<close> attribute (absent, or the list of its
  whitespace-separated tokens: the one multi-valued attribute the program touches), the
  dictionary of its string-valued attributes and its children. \<open>NavigableString\<close> is a
  text node; \<open>OtherString\<close> is a string that \<open>get_text\<close> skips (a comment, a doctype,
  the content of a script or style element). The document is the list of the children of
  the \<open>BeautifulSoup\<close> object, whose own name is \<open>[document]\<close>.
\<close>

datatype node =
    Tag pystr "pystr list option" "(pystr \<times> pystr) list" "node list"
  | NavigableString pystr
  | OtherString pystr

type_synonym soup = "node list"

definition document_name :: pystr where
  "document_name = str ''[document]''"

text \<open>
  The \<open>descendants\<close> generator: every node below the given one in document order
  (a node before its children, children left to right), each paired with the names of
  its \<open>parents\<close>, nearest first.
\<close>

fun descendants_node :: "pystr list \<Rightarrow> node \<Rightarrow> (pystr list \<times> node) list"
  and descendants_list :: "pystr list \<Rightarrow> node list \<Rightarrow> (pystr list \<times> node) list" where
  "descendants_node ps (Tag n c a ks) = (ps, Tag n c a ks) # descendants_list (n # ps) ks"
| "descendants_node ps (NavigableString s) = [(ps, NavigableString s)]"
| "descendants_node ps (OtherString s) = [(ps, OtherString s)]"
| "descendants_list ps [] = []"
| "descendants_list ps (k # ks) = descendants_node ps k @ descendants_list ps ks"

definition descendants :: "soup \<Rightarrow> (pystr list \<times> node) list" where
  "descendants soup = descendants_list [document_name] soup"

fun is_tag_named :: "pystr \<Rightarrow> node \<Rightarrow> bool" where
  "is_tag_named nm (Tag n c a ks) = (n = nm)"
| "is_tag_named nm (NavigableString s) = False"
| "is_tag_named nm (OtherString s) = False"

text \<open>\<open>tag.has_attr('class')\<close>.\<close>

fun has_attr_class :: "node \<Rightarrow> bool" where
  "has_attr_class (Tag n c a ks) = (c \<noteq> None)"
| "has_attr_class (NavigableString s) = False"
| "has_attr_class (OtherString s) = False"

text \<open>
  The filter \<open>class_=v\<close> of \<open>find\<close>, for a value without a space: some token of the class
  list is \<open>v\<close>. (The search also compares \<open>v\<close> with the tokens joined by spaces, which
  for such a value can only succeed when the single token is \<open>v\<close>.)
\<close>

fun has_class :: "pystr \<Rightarrow> node \<Rightarrow> bool" where
  "has_class v (Tag n c a ks) = (case c of None \<Rightarrow> False | Some tokens \<Rightarrow> v \<in> set tokens)"
| "has_class v (NavigableString s) = False"
| "has_class v (OtherString s) = False"

text \<open>\<open>tag.get(key)\<close> for a string-valued attribute.\<close>

fun get_attr :: "pystr \<Rightarrow> node \<Rightarrow> pystr option" where
  "get_attr key (Tag n c a ks) = map_of a key"
| "get_attr key (NavigableString s) = None"
| "get_attr key (OtherString s) = None"

text \<open>\<open>soup.find_all(name)\<close>, each tag with the names of its parents.\<close>

definition find_all :: "pystr \<Rightarrow> soup \<Rightarrow> (pystr list \<times> node) list" where
  "find_all nm soup = filter (\<lambda>(ps, t). is_tag_named nm t) (descendants soup)"

text \<open>\<open>soup.find(...)\<close>: the first descendant that passes the filter, or \<open>None\<close>.\<close>

definition soup_find :: "(node \<Rightarrow> bool) \<Rightarrow> soup \<Rightarrow> node option" where
  "soup_find P soup = List.find P (map snd (descendants soup))"

text \<open>The strings that \<open>get_text\<close> joins: the text nodes below the tag, in document order.\<close>

fun all_strings :: "node \<Rightarrow> pystr list"
  and all_strings_list :: "node list \<Rightarrow> pystr list" where
  "all_strings (Tag n c a ks) = all_strings_list ks"
| "all_strings (NavigableString s) = [s]"
| "all_strings (OtherString s) = []"
| "all_strings_list [] = []"
| "all_strings_list (k # ks) = all_strings k @ all_strings_list ks"

text \<open>\<open>tag.get_text()\<close>.\<close>

definition get_text :: "node \<Rightarrow> pystr" where
  "get_text t = concat (all_strings t)"

text \<open>\<open>tag.get_text(strip=True)\<close>: each string stripped, the empty ones dropped.\<close>

definition get_text_strip :: "node \<Rightarrow> pystr" where
  "get_text_strip t = concat (filter (\<lambda>s. s \<noteq> []) (map strip (all_strings t)))"

section \<open>extract_title_for_filename\<close>

definition separator :: pystr where
  "separator = [160, 160]"

text \<open>\<open>sep in s\<close>.\<close>

fun contains :: "pystr \<Rightarrow> pystr \<Rightarrow> bool" where
  "contains sep [] = (sep = [])"
| "contains sep (c # cs) = (take (length sep) (c # cs) = sep \<or> contains sep cs)"

text \<open>\<open>s.split(sep, 1)\<close> for a non-empty \<open>sep\<close>: cut at the leftmost occurrence, if any.\<close>

fun split1 :: "pystr \<Rightarrow> pystr \<Rightarrow> pystr list" where
  "split1 sep [] = [[]]"
| "split1 sep (c # cs) =
     (if take (length sep) (c # cs) = sep then [[], drop (length sep) (c # cs)]
      else case split1 sep cs of
          [] \<Rightarrow> []
        | before # rest \<Rightarrow> (c # before) # rest)"

text \<open>\<open>xs[i]\<close>, with \<open>None\<close> for the \<open>IndexError\<close>.\<close>

definition index :: "'a list \<Rightarrow> nat \<Rightarrow> 'a option" where
  "index xs i = (if i < length xs then Some (xs ! i) else None)"

definition is_title_span :: "node \<Rightarrow> bool" where
  "is_title_span t \<longleftrightarrow> is_tag_named (str ''span'') t \<and> has_class (str ''title'') t"

definition extract_title_for_filename :: "(pystr \<Rightarrow> pystr) \<Rightarrow> soup \<Rightarrow> pystr" where
  "extract_title_for_filename lw soup =
     (let output_filename_base =
        (case soup_find is_title_span soup of
           None \<Rightarrow> untitled
         | Some title_span \<Rightarrow>
             let raw_title_text = get_text title_span in
             if contains separator raw_title_text then
               (case index (split1 separator raw_title_text) 1 of
                  None \<Rightarrow> untitled
                | Some filename_candidate \<Rightarrow>
                    let cleaned_candidate = strip filename_candidate in
                    if cleaned_candidate \<noteq> [] then cleaned_candidate else untitled)
             else untitled)
      in sanitize_filename lw output_filename_base)"

section \<open>extract_relevant_paragraphs\<close>

definition excluded_sections :: "pystr list" where
  "excluded_sections = [str ''header'', str ''footer'', str ''nav'', str ''aside'']"

text \<open>The loop over \<open>p_tag.parents\<close>, which stops at the first excluded name.\<close>

fun is_in_excluded_section :: "pystr list \<Rightarrow> bool" where
  "is_in_excluded_section [] = False"
| "is_in_excluded_section (parent # parents) =
     (if parent \<in> set excluded_sections then True else is_in_excluded_section parents)"

text \<open>The loop over \<open>soup.find_all('p')\<close>, with the list \<open>paragraphs_text\<close> it appends to.\<close>

fun paragraphs_loop :: "(pystr list \<times> node) list \<Rightarrow> pystr list \<Rightarrow> pystr list" where
  "paragraphs_loop [] paragraphs_text = paragraphs_text"
| "paragraphs_loop ((parents, p_tag) # rest) paragraphs_text =
     (if has_attr_class p_tag then paragraphs_loop rest paragraphs_text
      else if is_in_excluded_section parents then paragraphs_loop rest paragraphs_text
      else let text = get_text_strip p_tag in
        if text \<noteq> [] then paragraphs_loop rest (paragraphs_text @ [text])
        else paragraphs_loop rest paragraphs_text)"

definition extract_relevant_paragraphs :: "soup \<Rightarrow> pystr list" where
  "extract_relevant_paragraphs soup = paragraphs_loop (find_all (str ''p'') soup) []"

section \<open>The pagination link\<close>

text \<open>\<open>soup.find('a', id='pt_next', class_='Readpage_up')\<close>.\<close>

definition is_next_link :: "node \<Rightarrow> bool" where
  "is_next_link t \<longleftrightarrow>
     is_tag_named (str ''a'') t \<and> get_attr (str ''id'') t = Some (str ''pt_next'')
     \<and> has_class (str ''Readpage_up'') t"

definition sentinel :: pystr where
  "sentinel = str ''javascript:void(0);''"

text \<open>
  Lines 144 to 166 of \<open>crawl_and_save_all_pages\<close>: the three checks that end the crawl,
  and otherwise the stripped href with \<open>urljoin(current_url, next_href)\<close>. \<open>urljoin\<close>
  belongs to the standard library and is the parameter \<open>join\<close>.
\<close>

datatype resolution = NoLink | NoHref | LastPage pystr | Candidate pystr pystr

definition next_page ::
  "(pystr \<Rightarrow> pystr) \<Rightarrow> (pystr \<Rightarrow> pystr \<Rightarrow> pystr) \<Rightarrow> soup \<Rightarrow> pystr \<Rightarrow> resolution" where
  "next_page lw join soup url =
     (case soup_find is_next_link soup of
        None \<Rightarrow> NoLink
      | Some next_page_link_tag \<Rightarrow>
          (case get_attr (str ''href'') next_page_link_tag of
             None \<Rightarrow> NoHref
           | Some next_href \<Rightarrow>
               if next_href = [] \<or> strip next_href = [] then NoHref
               else let next_href' = strip next_href in
                 if lw next_href' = sentinel then LastPage next_href'
                 else Candidate next_href' (join url next_href')))"


section \<open>The crawl and its environment\<close>

text \<open>
  What the network answers: \<open>requests.get\<close>, \<open>raise_for_status\<close> and the parser either
  raise (a timeout, another \<open>RequestException\<close>, any other exception) or give the parsed
  document.
\<close>

datatype fetch_result = Timeout | RequestException | OtherException | Response soup

datatype file_mode = W | A

text \<open>The lines the program prints, one constructor for each \<open>print\<close> of the source.\<close>

datatype message =
    MsgProcessing pystr
  | MsgTimeout pystr
  | MsgRequestError pystr
  | MsgPageError pystr
  | MsgFilename pystr
  | MsgAdded nat pystr
  | MsgCreated pystr
  | MsgWriteError pystr
  | MsgNothingToAdd pystr
  | MsgNoNextLink
  | MsgNoHref
  | MsgFoundHref pystr
  | MsgLastPage
  | MsgSameUrl pystr pystr
  | MsgWaiting
  | MsgDone pystr
  | MsgNoFile
  | MsgNotStarted

text \<open>What the program does to the world, in order.\<close>

datatype event =
    Print message
  | Get pystr
  | Open pystr file_mode
  | Write pystr pystr
  | Sleep
  | UncaughtTypeError

text \<open>
  The environment of a run: the two library functions, the answer of the network to the
  \<open>n\<close>-th request of the run, and where the file operations of the \<open>n\<close>-th iteration fail
  with an \<open>IOError\<close>, if they do (\<open>Some 0\<close>: in \<open>open\<close>; \<open>Some (k + 1)\<close>: after \<open>k\<close> calls
  of \<open>f.write\<close> have succeeded).
\<close>

record env =
  str_lower :: "pystr \<Rightarrow> pystr"
  urljoin :: "pystr \<Rightarrow> pystr \<Rightarrow> pystr"
  http_get :: "nat \<Rightarrow> pystr \<Rightarrow> fetch_result"
  io_error :: "nat \<Rightarrow> nat option"

text \<open>
  The variables of \<open>crawl_and_save_all_pages\<close>, the file system and the events so far.
  \<open>iterations\<close> counts the passes through the loop; \<open>crashed\<close> records an exception that
  no handler of the function catches.
\<close>

record crawl_state =
  current_url :: "pystr option"
  output_filename :: "pystr option"
  first_page_processed :: bool
  iterations :: nat
  files :: "pystr \<Rightarrow> pystr option"
  trace :: "event list"
  crashed :: bool

definition emit :: "event list \<Rightarrow> crawl_state \<Rightarrow> crawl_state" where
  "emit es st = st\<lparr>trace := trace st @ es\<rparr>"

text \<open>\<open>current_url = None\<close>.\<close>

definition stop :: "crawl_state \<Rightarrow> crawl_state" where
  "stop st = st\<lparr>current_url := None\<rparr>"

text \<open>The truth value of a variable that holds \<open>None\<close> or a string.\<close>

fun truthy :: "pystr option \<Rightarrow> bool" where
  "truthy None = False"
| "truthy (Some s) = (s \<noteq> [])"

section \<open>Writing a page\<close>

definition page_separator :: pystr where
  "page_separator = [10, 10]"

text \<open>
  The loop \<open>for i, text_content in enumerate(paragraphs)\<close>: the arguments of \<open>f.write\<close>,
  in order, from index \<open>i\<close> on, with \<open>n = len(paragraphs)\<close>.
\<close>

fun write_paragraphs :: "nat \<Rightarrow> nat \<Rightarrow> pystr list \<Rightarrow> pystr list" where
  "write_paragraphs i n [] = []"
| "write_paragraphs i n (text_content # rest) =
     text_content # (if int i < int n - 1 then [page_separator] else [])
       @ write_paragraphs (i + 1) n rest"

text \<open>The body of the \<open>with\<close> block, lines 124 to 130.\<close>

definition write_calls :: "file_mode \<Rightarrow> pystr list \<Rightarrow> pystr list" where
  "write_calls file_mode paragraphs =
     (if file_mode = A \<and> paragraphs \<noteq> [] then [page_separator] else [])
       @ write_paragraphs 0 (length paragraphs) paragraphs"

definition content :: "crawl_state \<Rightarrow> pystr \<Rightarrow> pystr" where
  "content st name = (case files st name of None \<Rightarrow> [] | Some c \<Rightarrow> c)"

text \<open>\<open>open(name, mode)\<close>: \<open>'w'\<close> creates or empties the file, \<open>'a'\<close> creates or keeps it.\<close>

definition open_file :: "pystr \<Rightarrow> file_mode \<Rightarrow> crawl_state \<Rightarrow> crawl_state" where
  "open_file name file_mode st =
     emit [Open name file_mode]
       (st\<lparr>files := (files st)(name \<mapsto> (case file_mode of W \<Rightarrow> [] | A \<Rightarrow> content st name))\<rparr>)"

fun write_all :: "pystr \<Rightarrow> pystr list \<Rightarrow> crawl_state \<Rightarrow> crawl_state" where
  "write_all name [] st = st"
| "write_all name (s # rest) st =
     write_all name rest
       (emit [Write name s] (st\<lparr>files := (files st)(name \<mapsto> content st name @ s)\<rparr>))"

datatype write_outcome = Written | IOError | TypeError

text \<open>
  Lines 121 to 142. \<open>open(None, ...)\<close> raises a \<open>TypeError\<close>, which the handler for
  \<open>IOError\<close> does not catch.
\<close>

definition save_page ::
  "nat option \<Rightarrow> pystr option \<Rightarrow> file_mode \<Rightarrow> pystr list \<Rightarrow> pystr \<Rightarrow> crawl_state
    \<Rightarrow> write_outcome \<times> crawl_state" where
  "save_page fault filename file_mode paragraphs url st =
     (if paragraphs \<noteq> [] \<or> file_mode = W then
        (case filename of
           None \<Rightarrow> (TypeError, emit [UncaughtTypeError] st)
         | Some name \<Rightarrow>
             (case fault of
                Some 0 \<Rightarrow> (IOError, emit [Print (MsgWriteError name)] st)
              | Some (Suc k) \<Rightarrow>
                  (IOError,
                   emit [Print (MsgWriteError name)]
                     (write_all name (take k (write_calls file_mode paragraphs))
                        (open_file name file_mode st)))
              | None \<Rightarrow>
                  (Written,
                   emit (if paragraphs \<noteq> [] then [Print (MsgAdded (length paragraphs) name)]
                         else if file_mode = W then [Print (MsgCreated name)] else [])
                     (write_all name (write_calls file_mode paragraphs)
                        (open_file name file_mode st)))))
      else (Written, emit (if file_mode = A then [Print (MsgNothingToAdd url)] else []) st))"

section \<open>The loop\<close>

text \<open>Lines 144 to 176: the next value of \<open>current_url\<close>.\<close>

definition resolve_next :: "env \<Rightarrow> soup \<Rightarrow> pystr \<Rightarrow> crawl_state \<Rightarrow> crawl_state" where
  "resolve_next env soup url st =
     (case next_page (str_lower env) (urljoin env) soup url of
        NoLink \<Rightarrow> stop (emit [Print MsgNoNextLink] st)
      | NoHref \<Rightarrow> stop (emit [Print MsgNoHref] st)
      | LastPage next_href \<Rightarrow> stop (emit [Print (MsgFoundHref next_href), Print MsgLastPage] st)
      | Candidate next_href new_url \<Rightarrow>
          let st1 = emit [Print (MsgFoundHref next_href)] st in
          if new_url = url then stop (emit [Print (MsgSameUrl new_url next_href)] st1)
          else let st2 = st1\<lparr>current_url := Some new_url\<rparr> in
            if truthy (current_url st2) then emit [Print MsgWaiting, Sleep] st2 else st2)"

text \<open>One pass through the body of the \<open>while\<close> loop, lines 87 to 176.\<close>

definition iteration :: "env \<Rightarrow> pystr \<Rightarrow> crawl_state \<Rightarrow> crawl_state" where
  "iteration env url st =
     (let n = iterations st;
          st1 = emit [Print (MsgProcessing url), Get url] (st\<lparr>iterations := Suc n\<rparr>)
      in case http_get env n url of
          Timeout \<Rightarrow> stop (emit [Print (MsgTimeout url)] st1)
        | RequestException \<Rightarrow> stop (emit [Print (MsgRequestError url)] st1)
        | OtherException \<Rightarrow> stop (emit [Print (MsgPageError url)] st1)
        | Response soup \<Rightarrow>
            let file_mode = (if \<not> first_page_processed st1 then W else A);
                st2 =
                  (if \<not> first_page_processed st1 then
                     let filename_base = extract_title_for_filename (str_lower env) soup;
                         name = filename_base @ str ''.txt''
                     in emit [Print (MsgFilename name)]
                          (st1\<lparr>output_filename := Some name, first_page_processed := True\<rparr>)
                   else st1);
                paragraphs = extract_relevant_paragraphs soup
            in case save_page (io_error env n) (output_filename st2) file_mode paragraphs url st2 of
                (Written, st3) \<Rightarrow> resolve_next env soup url st3
              | (IOError, st3) \<Rightarrow> stop st3
              | (TypeError, st3) \<Rightarrow> stop (st3\<lparr>crashed := True\<rparr>))"

text \<open>\<open>while current_url\<close>.\<close>

definition running :: "crawl_state \<Rightarrow> bool" where
  "running st \<longleftrightarrow> truthy (current_url st)"

definition loop_body :: "env \<Rightarrow> crawl_state \<Rightarrow> crawl_state" where
  "loop_body env st = (case current_url st of None \<Rightarrow> st | Some url \<Rightarrow> iteration env url st)"

text \<open>
  The loop may run forever (a site can link on without end). \<open>crawl_steps k\<close> is the
  state after \<open>k\<close> passes, or the final state if the loop ends earlier; \<open>crawl_loop\<close> is the
  loop with fuel: the final state if the loop ends within \<open>fuel\<close> passes.
\<close>

fun crawl_steps :: "nat \<Rightarrow> env \<Rightarrow> crawl_state \<Rightarrow> crawl_state" where
  "crawl_steps 0 env st = st"
| "crawl_steps (Suc k) env st =
     (if running st then crawl_steps k env (loop_body env st) else st)"


definition initial_state :: "pystr \<Rightarrow> (pystr \<Rightarrow> pystr option) \<Rightarrow> crawl_state" where
  "initial_state initial_url fs =
     \<lparr>current_url = Some initial_url, output_filename = None, first_page_processed = False,
      iterations = 0, files = fs, trace = [], crashed = False\<rparr>"



section \<open>Example documents\<close>

definition example_title_page :: soup where
  "example_title_page =
     [Tag (str ''span'') (Some [str ''title'']) []
        [NavigableString (str ''Chapter'' @ [160, 160] @ str ''My Title'')]]"

definition plain_title_span :: node where
  "plain_title_span =
     Tag (str ''span'') (Some [str ''title'']) [] [NavigableString (str ''Chapter'')]"

definition example_title_span :: node where
  "example_title_span =
     Tag (str ''span'') (Some [str ''title'']) []
       [NavigableString (str ''Chapter'' @ [160, 160] @ str ''My Title'')]"



text \<open>A stand-in for \<open>urljoin\<close> in concrete runs: every href is taken as absolute.\<close>

definition absolute_join :: "pystr \<Rightarrow> pystr \<Rightarrow> pystr" where
  "absolute_join base href = href"

definition example_env :: "(nat \<Rightarrow> pystr \<Rightarrow> fetch_result) \<Rightarrow> (nat \<Rightarrow> nat option) \<Rightarrow> env" where
  "example_env get fault =
     \<lparr>str_lower = ascii_lower, urljoin = absolute_join, http_get = get, io_error = fault\<rparr>"







section \<open>Reading a run\<close>

text \<open>The URLs requested, the files opened and the strings written, in order.\<close>

definition fetched :: "event list \<Rightarrow> pystr list" where
  "fetched tr = concat (map (\<lambda>e. case e of Get url \<Rightarrow> [url] | _ \<Rightarrow> []) tr)"

definition opened :: "event list \<Rightarrow> (pystr \<times> file_mode) list" where
  "opened tr = concat (map (\<lambda>e. case e of Open name m \<Rightarrow> [(name, m)] | _ \<Rightarrow> []) tr)"

definition written :: "event list \<Rightarrow> (pystr \<times> pystr) list" where
  "written tr = concat (map (\<lambda>e. case e of Write name s \<Rightarrow> [(name, s)] | _ \<Rightarrow> []) tr)"

text \<open>
  The specification's words for the text of a page: consecutive paragraphs are joined by
  one separator, and nothing follows the last paragraph.
\<close>

fun separated :: "pystr list \<Rightarrow> pystr list" where
  "separated [] = []"
| "separated [t] = [t]"
| "separated (t # u # rest) = t # page_separator # separated (u # rest)"

fun is_failure :: "fetch_result \<Rightarrow> bool" where
  "is_failure (Response soup) = False"
| "is_failure r = True"

text \<open>The diagnostic of each handler of lines 97 to 108.\<close>

fun failure_message :: "fetch_result \<Rightarrow> pystr \<Rightarrow> message" where
  "failure_message Timeout url = MsgTimeout url"
| "failure_message RequestException url = MsgRequestError url"
| "failure_message r url = MsgPageError url"

text \<open>The name of the output file that the first page fixes.\<close>

definition output_name :: "env \<Rightarrow> soup \<Rightarrow> pystr" where
  "output_name env soup = extract_title_for_filename (str_lower env) soup @ str ''.txt''"

section \<open>Properties of the string functions\<close>

lemma untitled_eq: "untitled = [117, 110, 116, 105, 116, 108, 101, 100]"
  by (simp add: untitled_def str_def)

lemma not_isspace_underscore: "\<not> isspace 95"
  by (simp add: isspace_def)

lemma dropWhile_none: "\<forall>c\<in>set s. \<not> P c \<Longrightarrow> dropWhile P s = s"
  by (cases s) auto

lemma strip_chars_none: "\<forall>c\<in>set s. \<not> P c \<Longrightarrow> strip_chars P s = s"
  by (simp add: strip_chars_def dropWhile_none)

lemma dropWhile_all_iff: "(\<forall>c\<in>set (dropWhile P s). P c) \<longleftrightarrow> (\<forall>c\<in>set s. P c)"
proof
  assume rest: "\<forall>c\<in>set (dropWhile P s). P c"
  have "dropWhile P s = []"
  proof (rule ccontr)
    assume ne: "dropWhile P s \<noteq> []"
    then have "\<not> P (hd (dropWhile P s))"
      by (rule hd_dropWhile)
    moreover from ne have "hd (dropWhile P s) \<in> set (dropWhile P s)"
      by simp
    ultimately show False
      using rest by blast
  qed
  then show "\<forall>c\<in>set s. P c"
    by (simp add: dropWhile_eq_Nil_conv)
next
  assume "\<forall>c\<in>set s. P c"
  then show "\<forall>c\<in>set (dropWhile P s). P c"
    by (auto dest: set_dropWhileD)
qed

lemma strip_chars_empty_iff: "strip_chars P s = [] \<longleftrightarrow> (\<forall>c\<in>set s. P c)"
  by (simp add: strip_chars_def dropWhile_eq_Nil_conv dropWhile_all_iff)

lemma strip_chars_all: "\<forall>c\<in>set s. P c \<Longrightarrow> strip_chars P s = []"
  by (simp add: strip_chars_empty_iff)

lemma re_sub_spaces_nospace: "c \<in> set (re_sub_spaces s) \<Longrightarrow> \<not> isspace c"
proof (induction s rule: re_sub_spaces.induct)
  case 1
  then show ?case by simp
next
  case (2 c cs)
  then show ?case
    by (auto simp: not_isspace_underscore split: if_splits)
qed

lemma re_sub_spaces_none: "\<forall>c\<in>set s. \<not> isspace c \<Longrightarrow> re_sub_spaces s = s"
  by (induction s) auto

lemma sanitize_transform_nospace: "c \<in> set (sanitize_transform s) \<Longrightarrow> \<not> isspace c"
  unfolding sanitize_transform_def re_sub_forbidden_def
  by (auto dest!: in_set_takeD re_sub_spaces_nospace)

lemma sanitize_transform_allowed: "c \<in> set (sanitize_transform s) \<Longrightarrow> c \<notin> set forbidden_chars"
  unfolding sanitize_transform_def re_sub_forbidden_def
  by (auto dest!: in_set_takeD)

lemma sanitize_transform_length: "length (sanitize_transform s) \<le> 200"
  by (simp add: sanitize_transform_def)

lemma sanitize_transform_fixed:
  assumes "\<forall>c\<in>set t. \<not> isspace c" and "\<forall>c\<in>set t. c \<notin> set forbidden_chars"
    and "length t \<le> 200"
  shows "sanitize_transform t = t"
proof -
  have "strip t = t"
    using assms(1) by (simp add: strip_def strip_chars_none)
  moreover have "re_sub_spaces t = t"
    using assms(1) by (rule re_sub_spaces_none)
  moreover have "re_sub_forbidden t = t"
    using assms(2) by (simp add: re_sub_forbidden_def)
  ultimately show ?thesis
    using assms(3) by (simp add: sanitize_transform_def)
qed

lemma sanitize_transform_idem: "sanitize_transform (sanitize_transform s) = sanitize_transform s"
  by (rule sanitize_transform_fixed)
    (auto dest: sanitize_transform_nospace sanitize_transform_allowed
      simp: sanitize_transform_length)

lemma sanitize_transform_untitled: "sanitize_transform untitled = untitled"
  by (rule sanitize_transform_fixed)
    (auto simp: untitled_eq isspace_def forbidden_chars_def)

lemma sanitize_filename_untitled: "sanitize_filename lw untitled = untitled"
  by (simp add: sanitize_filename_def Let_def sanitize_transform_untitled)

lemma sanitize_transform_forbidden_only:
  assumes "set s \<subseteq> set forbidden_chars"
  shows "sanitize_transform s = []"
proof -
  have nosp: "\<forall>c\<in>set s. \<not> isspace c"
    using assms by (auto simp: forbidden_chars_def isspace_def)
  then have "re_sub_spaces (strip s) = s"
    by (simp add: strip_def strip_chars_none re_sub_spaces_none)
  moreover have "re_sub_forbidden s = []"
    using assms by (auto simp: re_sub_forbidden_def filter_empty_conv)
  ultimately show ?thesis
    by (simp add: sanitize_transform_def)
qed

section \<open>Claims about sanitize_filename\<close>

text \<open>
  C8. For every input string (and whatever \<open>str.lower\<close> computes), \<open>sanitize_filename\<close>
  returns a string of at most 200 code points that contains none of the characters
  \<open>\ / * ? : " < > |\<close>. It returns \<open>"untitled"\<close> for the empty string, for an input made
  only of these characters, and whenever the transformed string is empty, made only of
  dots, or lowers to \<open>"untitled"\<close>. The function is total: no operation of the source
  can raise on a \<open>str\<close>.
\<close>

theorem sanitize_filename_safe:
  "length (sanitize_filename lw s) \<le> 200
   \<and> set (sanitize_filename lw s) \<inter> set forbidden_chars = {}
   \<and> sanitize_filename lw [] = untitled
   \<and> (set s \<subseteq> set forbidden_chars \<longrightarrow> sanitize_filename lw s = untitled)
   \<and> (sanitize_transform s = [] \<or> set (sanitize_transform s) \<subseteq> {46}
        \<or> lw (sanitize_transform s) = untitled
      \<longrightarrow> sanitize_filename lw s = untitled)"
proof -
  have len: "length (sanitize_filename lw s) \<le> 200"
    by (simp add: sanitize_filename_def Let_def sanitize_transform_length untitled_eq)
  have "c \<notin> set forbidden_chars" if "c \<in> set (sanitize_filename lw s)" for c
  proof (cases "sanitize_filename lw s = untitled")
    case True
    with that show ?thesis
      by (auto simp: untitled_eq forbidden_chars_def)
  next
    case False
    then have "sanitize_filename lw s = sanitize_transform s"
      by (auto simp: sanitize_filename_def Let_def split: if_splits)
    with that show ?thesis
      by (simp add: sanitize_transform_allowed)
  qed
  then have allowed: "set (sanitize_filename lw s) \<inter> set forbidden_chars = {}"
    by blast
  have empty: "sanitize_filename lw [] = untitled"
    by (simp add: sanitize_filename_def)
  have only: "sanitize_filename lw s = untitled" if "set s \<subseteq> set forbidden_chars"
    using sanitize_transform_forbidden_only [OF that]
    by (simp add: sanitize_filename_def Let_def)
  have fallback: "sanitize_filename lw s = untitled"
    if "sanitize_transform s = [] \<or> set (sanitize_transform s) \<subseteq> {46}
        \<or> lw (sanitize_transform s) = untitled"
  proof -
    have "strip_chars (\<lambda>c. c = 46) (sanitize_transform s) = []"
      if "set (sanitize_transform s) \<subseteq> {46}"
      using that by (intro strip_chars_all) auto
    with that show ?thesis
      by (auto simp: sanitize_filename_def Let_def)
  qed
  from len allowed empty only fallback show ?thesis
    by blast
qed

theorem sanitize_filename_safe_witness:
  "set (str ''<*>'') \<subseteq> set forbidden_chars
   \<and> sanitize_filename ascii_lower (str ''<*>'') = untitled
   \<and> set (sanitize_transform (str '' ..? '')) \<subseteq> {46}
   \<and> sanitize_filename ascii_lower (str '' ..? '') = untitled
   \<and> ascii_lower (sanitize_transform (str ''UnTitled'')) = untitled
   \<and> sanitize_filename ascii_lower (str ''UnTitled'') = untitled
   \<and> length (sanitize_filename ascii_lower (str ''a b'')) \<le> 200"
  using sanitize_filename_safe [of ascii_lower "str ''<*>''"]
    sanitize_filename_safe [of ascii_lower "str '' ..? ''"]
    sanitize_filename_safe [of ascii_lower "str ''UnTitled''"]
    sanitize_filename_safe [of ascii_lower "str ''a b''"]
  by (simp add: str_def forbidden_chars_def sanitize_transform_def strip_def strip_chars_def
      isspace_def re_sub_forbidden_def ascii_lower_def untitled_eq)

text \<open>
  C9. \<open>sanitize_filename\<close> is idempotent, whatever \<open>str.lower\<close> computes: every output is
  \<open>"untitled"\<close> or a non-empty string without whitespace and without disallowed
  characters, of at most 200 code points, not made of dots only and not lowering to
  \<open>"untitled"\<close>; and the function returns every such string unchanged.
\<close>

theorem sanitize_filename_idempotent:
  "sanitize_filename lw (sanitize_filename lw s) = sanitize_filename lw s
   \<and> (sanitize_filename lw s = untitled
      \<or> (sanitize_filename lw s \<noteq> []
         \<and> (\<forall>c\<in>set (sanitize_filename lw s). \<not> isspace c \<and> c \<notin> set forbidden_chars)
         \<and> length (sanitize_filename lw s) \<le> 200
         \<and> \<not> set (sanitize_filename lw s) \<subseteq> {46}
         \<and> lw (sanitize_filename lw s) \<noteq> untitled))
   \<and> (t \<noteq> [] \<and> (\<forall>c\<in>set t. \<not> isspace c \<and> c \<notin> set forbidden_chars) \<and> length t \<le> 200
        \<and> \<not> set t \<subseteq> {46} \<and> lw t \<noteq> untitled
      \<longrightarrow> sanitize_filename lw t = t)"
proof -
  have fixed: "sanitize_filename lw t = t"
    if "t \<noteq> []" "\<forall>c\<in>set t. \<not> isspace c \<and> c \<notin> set forbidden_chars" "length t \<le> 200"
      "\<not> set t \<subseteq> {46}" "lw t \<noteq> untitled" for t
  proof -
    have "sanitize_transform t = t"
      using that(2,3) by (intro sanitize_transform_fixed) auto
    moreover have "strip_chars (\<lambda>c. c = 46) t \<noteq> []"
      using that(4) by (auto simp: strip_chars_empty_iff)
    ultimately show ?thesis
      using that(1,5) by (simp add: sanitize_filename_def Let_def)
  qed
  have shape: "sanitize_filename lw s = untitled
      \<or> (sanitize_filename lw s \<noteq> []
         \<and> (\<forall>c\<in>set (sanitize_filename lw s). \<not> isspace c \<and> c \<notin> set forbidden_chars)
         \<and> length (sanitize_filename lw s) \<le> 200
         \<and> \<not> set (sanitize_filename lw s) \<subseteq> {46}
         \<and> lw (sanitize_filename lw s) \<noteq> untitled)"
  proof (cases "sanitize_filename lw s = untitled")
    case True
    then show ?thesis by simp
  next
    case False
    then have eq: "sanitize_filename lw s = sanitize_transform s"
      and ne: "sanitize_transform s \<noteq> []"
      and dots: "strip_chars (\<lambda>c. c = 46) (sanitize_transform s) \<noteq> []"
      and low: "lw (sanitize_transform s) \<noteq> untitled"
      by (auto simp: sanitize_filename_def Let_def split: if_splits)
    from dots have "\<not> set (sanitize_transform s) \<subseteq> {46}"
      by (auto simp: strip_chars_empty_iff)
    with eq ne low show ?thesis
      by (auto dest: sanitize_transform_nospace sanitize_transform_allowed
          simp: sanitize_transform_length)
  qed
  have idem: "sanitize_filename lw (sanitize_filename lw s) = sanitize_filename lw s"
  proof (cases "sanitize_filename lw s = untitled")
    case True
    then show ?thesis by (simp add: sanitize_filename_untitled)
  next
    case False
    with shape show ?thesis by (intro fixed) auto
  qed
  from idem shape fixed [of t] show ?thesis
    by blast
qed

theorem sanitize_filename_idempotent_witness:
  "sanitize_filename ascii_lower (str '' My  Title?.'') = str ''My_Title.''
   \<and> sanitize_filename ascii_lower (str ''My_Title.'') = str ''My_Title.''
   \<and> list_all (\<lambda>c. \<not> isspace c \<and> c \<notin> set forbidden_chars) (str ''My_Title.'')"
  using sanitize_filename_idempotent [of ascii_lower "str '' My  Title?.''" "str ''My_Title.''"]
  by (simp add: str_def forbidden_chars_def sanitize_filename_def sanitize_transform_def
      strip_def strip_chars_def isspace_def re_sub_forbidden_def ascii_lower_def untitled_eq)

section \<open>Claims about extract_title_for_filename\<close>

lemma contains_iff: "contains sep s \<longleftrightarrow> (\<exists>a b. s = a @ sep @ b)"
proof (induction s)
  case Nil
  then show ?case by auto
next
  case (Cons c cs)
  show ?case
  proof
    assume "contains sep (c # cs)"
    then consider "take (length sep) (c # cs) = sep" | "contains sep cs"
      by auto
    then show "\<exists>a b. c # cs = a @ sep @ b"
    proof cases
      case 1
      then have "c # cs = [] @ sep @ drop (length sep) (c # cs)"
        by (metis append_Nil append_take_drop_id)
      then show ?thesis by blast
    next
      case 2
      with Cons.IH obtain a b where "cs = a @ sep @ b" by blast
      then have "c # cs = (c # a) @ sep @ b" by simp
      then show ?thesis by blast
    qed
  next
    assume "\<exists>a b. c # cs = a @ sep @ b"
    then obtain a b where ab: "c # cs = a @ sep @ b" by blast
    show "contains sep (c # cs)"
    proof (cases a)
      case Nil
      with ab have "take (length sep) (c # cs) = sep" by simp
      then show ?thesis by simp
    next
      case (Cons x a')
      with ab have "cs = a' @ sep @ b" by simp
      with Cons.IH have "contains sep cs" by blast
      then show ?thesis by simp
    qed
  qed
qed

lemma split1_first:
  assumes "sep \<noteq> []"
    and "\<forall>a' b'. a @ sep @ b = a' @ sep @ b' \<longrightarrow> length a \<le> length a'"
  shows "split1 sep (a @ sep @ b) = [a, b]"
  using assms(2)
proof (induction a)
  case Nil
  from assms(1) obtain c cs where "sep @ b = c # cs"
    by (cases sep) auto
  moreover have "take (length sep) (sep @ b) = sep" by simp
  ultimately show ?case
    by (metis append_Nil append_eq_conv_conj split1.simps(2))
next
  case (Cons x a)
  have notfirst: "take (length sep) (x # a @ sep @ b) \<noteq> sep"
  proof
    assume "take (length sep) (x # a @ sep @ b) = sep"
    then have "(x # a) @ sep @ b = [] @ sep @ drop (length sep) (x # a @ sep @ b)"
      by (metis append_Cons append_Nil append_take_drop_id)
    with Cons.prems have "length (x # a) \<le> length ([]::nat list)" by blast
    then show False by simp
  qed
  have "\<forall>a' b'. a @ sep @ b = a' @ sep @ b' \<longrightarrow> length a \<le> length a'"
  proof (intro allI impI)
    fix a' b'
    assume "a @ sep @ b = a' @ sep @ b'"
    then have "(x # a) @ sep @ b = (x # a') @ sep @ b'" by simp
    with Cons.prems have "length (x # a) \<le> length (x # a')" by blast
    then show "length a \<le> length a'" by simp
  qed
  with Cons.IH have "split1 sep (a @ sep @ b) = [a, b]" by blast
  with notfirst show ?case by simp
qed

lemma split1_two:
  assumes "sep \<noteq> []" and "split1 sep s = [a, b]"
  shows "s = a @ sep @ b \<and> (\<forall>a' b'. s = a' @ sep @ b' \<longrightarrow> length a \<le> length a')"
  using assms(2)
proof (induction s arbitrary: a)
  case Nil
  then show ?case by simp
next
  case (Cons c cs)
  show ?case
  proof (cases "take (length sep) (c # cs) = sep")
    case True
    with Cons.prems have "a = []" "b = drop (length sep) (c # cs)" by auto
    with True show ?thesis
      by (metis append_Nil append_take_drop_id le0 list.size(3))
  next
    case False
    with Cons.prems obtain a0 where a0: "split1 sep cs = [a0, b]" "a = c # a0"
      by (auto split: list.splits)
    from Cons.IH [OF a0(1)] have eq: "cs = a0 @ sep @ b"
      and least: "\<forall>a' b'. cs = a' @ sep @ b' \<longrightarrow> length a0 \<le> length a'" by auto
    have "length a \<le> length a'" if "c # cs = a' @ sep @ b'" for a' b'
    proof (cases a')
      case Nil
      with that have "take (length sep) (c # cs) = sep" by simp
      with False show ?thesis by simp
    next
      case (Cons y a'')
      with that have "cs = a'' @ sep @ b'" by simp
      with least have "length a0 \<le> length a''" by blast
      with Cons a0(2) show ?thesis by simp
    qed
    with eq a0(2) show ?thesis by simp
  qed
qed

lemma strip_chars_idem: "strip_chars P (strip_chars P s) = strip_chars P s"
proof -
  define d where "d = dropWhile P s"
  define r where "r = dropWhile P (rev d)"
  have r_self: "dropWhile P r = r"
    by (simp add: r_def)
  have "dropWhile P (rev r) = rev r"
  proof (cases "r = []")
    case True
    then show ?thesis by simp
  next
    case False
    then have "rev d \<noteq> []" by (auto simp: r_def)
    then have dne: "d \<noteq> []" by simp
    have "rev d = takeWhile P (rev d) @ r"
      by (simp add: r_def)
    with False have "last (rev d) = last r"
      by (metis last_appendR)
    then have "last r = hd d"
      using dne by (simp add: last_rev)
    moreover have "\<not> P (hd d)"
      using dne unfolding d_def by (rule hd_dropWhile)
    ultimately have "\<not> P (hd (rev r))"
      using False by (simp add: hd_rev)
    then show ?thesis
      by (simp add: dropWhile_eq_self_iff)
  qed
  then show ?thesis
    by (simp add: strip_chars_def d_def [symmetric] r_def [symmetric] r_self)
qed

lemma sanitize_filename_strip:
  "sanitize_filename lw (strip b) = sanitize_filename lw b"
proof (cases "strip b = []")
  case True
  then have "sanitize_transform b = []"
    by (simp add: sanitize_transform_def re_sub_forbidden_def)
  with True show ?thesis
    by (simp add: sanitize_filename_def Let_def)
next
  case False
  then have "b \<noteq> []"
    by (auto simp: strip_def strip_chars_def)
  moreover have "sanitize_transform (strip b) = sanitize_transform b"
    by (simp add: sanitize_transform_def strip_def strip_chars_idem)
  ultimately show ?thesis
    using False by (simp add: sanitize_filename_def Let_def)
qed


lemma soup_find_None: "soup_find P soup = None \<longleftrightarrow> (\<forall>x\<in>set (descendants soup). \<not> P (snd x))"
  by (auto simp: soup_find_def find_None_iff)

lemma separator_nonempty: "separator \<noteq> []"
  by (simp add: separator_def)

lemma title_from_text:
  assumes "soup_find is_title_span soup = Some t"
    and "get_text t = a @ separator @ b"
    and "\<forall>a' b'. get_text t = a' @ separator @ b' \<longrightarrow> length a \<le> length a'"
  shows "extract_title_for_filename lw soup = sanitize_filename lw b"
proof -
  have c: "contains separator (get_text t)"
    using assms(2) by (auto simp: contains_iff)
  have "split1 separator (a @ separator @ b) = [a, b]"
    using separator_nonempty assms(3) unfolding assms(2) by (rule split1_first)
  then have i: "index (split1 separator (get_text t)) 1 = Some b"
    by (simp add: assms(2) index_def)
  show ?thesis
  proof (cases "strip b = []")
    case True
    have "sanitize_filename lw b = sanitize_filename lw (strip b)"
      by (simp add: sanitize_filename_strip)
    also have "\<dots> = untitled"
      using True by (simp add: sanitize_filename_def)
    finally show ?thesis
      using assms(1) c i True
      by (simp add: extract_title_for_filename_def Let_def sanitize_filename_untitled)
  next
    case False
    with assms(1) c i show ?thesis
      by (simp add: extract_title_for_filename_def Let_def sanitize_filename_strip)
  qed
qed

lemma title_blank:
  assumes "strip b = []"
  shows "sanitize_filename lw b = untitled"
proof -
  have "sanitize_filename lw b = sanitize_filename lw (strip b)"
    by (simp add: sanitize_filename_strip)
  with assms show ?thesis
    by (simp add: sanitize_filename_def)
qed

text \<open>
  C7. \<open>extract_title_for_filename\<close> returns \<open>"untitled"\<close> when the document has no span
  element with class \<open>title\<close>, when the text of the first such span does not contain two
  consecutive non-breaking spaces, and when the text after their first occurrence is blank.
  Otherwise it returns that text, sanitized: for \<open>"Chapter\xa0\xa0My Title"\<close> the result
  is \<open>"My_Title"\<close> (for a \<open>str.lower\<close> that does not send \<open>"My_Title"\<close> to
  \<open>"untitled"\<close>). The function is total: the \<open>IndexError\<close> of the source is a branch of
  the model, and it ends in \<open>"untitled"\<close> too.
\<close>

theorem extract_title_for_filename_cases:
  "((\<forall>x\<in>set (descendants soup). \<not> is_title_span (snd x))
      \<longrightarrow> extract_title_for_filename lw soup = untitled)
   \<and> (soup_find is_title_span soup = Some t \<and> \<not> (\<exists>a b. get_text t = a @ separator @ b)
      \<longrightarrow> extract_title_for_filename lw soup = untitled)
   \<and> (soup_find is_title_span soup = Some t \<and> get_text t = a @ separator @ b
        \<and> (\<forall>a' b'. get_text t = a' @ separator @ b' \<longrightarrow> length a \<le> length a')
      \<longrightarrow> extract_title_for_filename lw soup = sanitize_filename lw b
        \<and> (strip b = [] \<longrightarrow> extract_title_for_filename lw soup = untitled))
   \<and> (lw (str ''My_Title'') \<noteq> untitled
      \<longrightarrow> extract_title_for_filename lw example_title_page = str ''My_Title'')"
proof (intro conjI impI)
  assume "\<forall>x\<in>set (descendants soup). \<not> is_title_span (snd x)"
  then have "soup_find is_title_span soup = None"
    by (simp add: soup_find_None)
  then show "extract_title_for_filename lw soup = untitled"
    by (simp add: extract_title_for_filename_def sanitize_filename_untitled)
next
  assume "soup_find is_title_span soup = Some t \<and> \<not> (\<exists>a b. get_text t = a @ separator @ b)"
  then show "extract_title_for_filename lw soup = untitled"
    by (simp add: extract_title_for_filename_def Let_def contains_iff sanitize_filename_untitled)
next
  assume h: "soup_find is_title_span soup = Some t \<and> get_text t = a @ separator @ b
        \<and> (\<forall>a' b'. get_text t = a' @ separator @ b' \<longrightarrow> length a \<le> length a')"
  then show eq: "extract_title_for_filename lw soup = sanitize_filename lw b"
    by (intro title_from_text) auto
  assume "strip b = []"
  with eq show "extract_title_for_filename lw soup = untitled"
    by (simp add: title_blank)
next
  assume "lw (str ''My_Title'') \<noteq> untitled"
  then show "extract_title_for_filename lw example_title_page = str ''My_Title''"
    by (simp add: extract_title_for_filename_def example_title_page_def soup_find_def
        descendants_def is_title_span_def get_text_def separator_def index_def Let_def
        sanitize_filename_def sanitize_transform_def re_sub_forbidden_def forbidden_chars_def
        strip_def strip_chars_def isspace_def str_def)
qed


theorem extract_title_for_filename_cases_witness:
  "descendants [] = []
   \<and> extract_title_for_filename ascii_lower [] = untitled
   \<and> soup_find is_title_span [plain_title_span] = Some plain_title_span
   \<and> \<not> (\<exists>a b. get_text plain_title_span = a @ separator @ b)
   \<and> extract_title_for_filename ascii_lower [plain_title_span] = untitled
   \<and> soup_find is_title_span example_title_page = Some example_title_span
   \<and> get_text example_title_span = str ''Chapter'' @ separator @ str ''My Title''
   \<and> split1 separator (get_text example_title_span) = [str ''Chapter'', str ''My Title'']
   \<and> extract_title_for_filename ascii_lower example_title_page
       = sanitize_filename ascii_lower (str ''My Title'')
   \<and> ascii_lower (str ''My_Title'') \<noteq> untitled
   \<and> extract_title_for_filename ascii_lower example_title_page = str ''My_Title''"
proof -
  have h1: "\<forall>x\<in>set (descendants []). \<not> is_title_span (snd x)"
    by (simp add: descendants_def)
  have f2: "soup_find is_title_span [plain_title_span] = Some plain_title_span"
    by (simp add: soup_find_def descendants_def plain_title_span_def is_title_span_def)
  have "\<not> contains separator (get_text plain_title_span)"
    by (simp add: plain_title_span_def get_text_def separator_def str_def)
  then have n2: "\<not> (\<exists>a b. get_text plain_title_span = a @ separator @ b)"
    by (simp add: contains_iff)
  have f3: "soup_find is_title_span example_title_page = Some example_title_span"
    by (simp add: soup_find_def descendants_def example_title_page_def
        example_title_span_def is_title_span_def)
  have s3: "split1 separator (get_text example_title_span) = [str ''Chapter'', str ''My Title'']"
    by (simp add: example_title_span_def get_text_def separator_def str_def)
  from split1_two [OF separator_nonempty this]
  have t3: "get_text example_title_span = str ''Chapter'' @ separator @ str ''My Title''"
    and m3: "\<forall>a' b'. get_text example_title_span = a' @ separator @ b'
        \<longrightarrow> length (str ''Chapter'') \<le> length a'"
    by blast+
  have l4: "ascii_lower (str ''My_Title'') \<noteq> untitled"
    by (simp add: ascii_lower_def str_def untitled_eq)
  have d1: "descendants [] = []"
    by (simp add: descendants_def)
  from d1 s3 h1 f2 n2 f3 t3 m3 l4
    extract_title_for_filename_cases
      [where soup = "[]" and lw = ascii_lower]
    extract_title_for_filename_cases
      [where soup = "[plain_title_span]" and lw = ascii_lower and t = plain_title_span]
    extract_title_for_filename_cases
      [where soup = example_title_page and lw = ascii_lower and t = example_title_span
        and a = "str ''Chapter''" and b = "str ''My Title''"]
  show ?thesis
    by blast
qed

section \<open>Claims about the pagination resolver\<close>

lemma next_page_NoLink:
  "next_page lw join soup url = NoLink \<longleftrightarrow> soup_find is_next_link soup = None"
  by (simp add: next_page_def Let_def split: option.splits)








section \<open>Effects of the file operations\<close>

lemma fetched_simps [simp]:
  "fetched [] = []"
  "fetched (tr @ tr') = fetched tr @ fetched tr'"
  "fetched (Get url # tr) = url # fetched tr"
  "fetched (Print m # tr) = fetched tr"
  "fetched (Open name fm # tr) = fetched tr"
  "fetched (Write name s # tr) = fetched tr"
  "fetched (Sleep # tr) = fetched tr"
  "fetched (UncaughtTypeError # tr) = fetched tr"
  by (simp_all add: fetched_def)

lemma opened_simps [simp]:
  "opened [] = []"
  "opened (tr @ tr') = opened tr @ opened tr'"
  "opened (Get url # tr) = opened tr"
  "opened (Print m # tr) = opened tr"
  "opened (Open name fm # tr) = (name, fm) # opened tr"
  "opened (Write name s # tr) = opened tr"
  "opened (Sleep # tr) = opened tr"
  "opened (UncaughtTypeError # tr) = opened tr"
  by (simp_all add: opened_def)

lemma written_simps [simp]:
  "written [] = []"
  "written (tr @ tr') = written tr @ written tr'"
  "written (Get url # tr) = written tr"
  "written (Print m # tr) = written tr"
  "written (Open name fm # tr) = written tr"
  "written (Write name s # tr) = (name, s) # written tr"
  "written (Sleep # tr) = written tr"
  "written (UncaughtTypeError # tr) = written tr"
  by (simp_all add: written_def)

lemma emit_simps [simp]:
  "trace (emit es st) = trace st @ es"
  "files (emit es st) = files st"
  "current_url (emit es st) = current_url st"
  "output_filename (emit es st) = output_filename st"
  "first_page_processed (emit es st) = first_page_processed st"
  "iterations (emit es st) = iterations st"
  "crashed (emit es st) = crashed st"
  "content (emit es st) name = content st name"
  by (simp_all add: emit_def content_def)

lemma content_update [simp]:
  "content (st\<lparr>iterations := n\<rparr>) name = content st name"
  "content (st\<lparr>current_url := u\<rparr>) name = content st name"
  "content (st\<lparr>output_filename := f\<rparr>) name = content st name"
  "content (st\<lparr>first_page_processed := b\<rparr>) name = content st name"
  "content (st\<lparr>crashed := b\<rparr>) name = content st name"
  "content (st\<lparr>trace := tr\<rparr>) name = content st name"
  by (simp_all add: content_def)

lemma stop_simps [simp]:
  "trace (stop st) = trace st"
  "files (stop st) = files st"
  "current_url (stop st) = None"
  "output_filename (stop st) = output_filename st"
  "first_page_processed (stop st) = first_page_processed st"
  "iterations (stop st) = iterations st"
  "crashed (stop st) = crashed st"
  "content (stop st) name = content st name"
  by (simp_all add: stop_def content_def)

lemma open_file_simps [simp]:
  "trace (open_file name fm st) = trace st @ [Open name fm]"
  "current_url (open_file name fm st) = current_url st"
  "output_filename (open_file name fm st) = output_filename st"
  "first_page_processed (open_file name fm st) = first_page_processed st"
  "iterations (open_file name fm st) = iterations st"
  "crashed (open_file name fm st) = crashed st"
  "content (open_file name fm st) name = (case fm of W \<Rightarrow> [] | A \<Rightarrow> content st name)"
  "other \<noteq> name \<Longrightarrow> files (open_file name fm st) other = files st other"
  "other \<noteq> name \<Longrightarrow> content (open_file name fm st) other = content st other"
  "name \<in> dom (files (open_file name fm st))"
  by (simp_all add: open_file_def content_def domIff)

lemma write_all_trace [simp]:
  "trace (write_all name ws st) = trace st @ map (Write name) ws"
  by (induction ws arbitrary: st) simp_all

lemma write_all_vars [simp]:
  "current_url (write_all name ws st) = current_url st"
  "output_filename (write_all name ws st) = output_filename st"
  "first_page_processed (write_all name ws st) = first_page_processed st"
  "iterations (write_all name ws st) = iterations st"
  "crashed (write_all name ws st) = crashed st"
  by (induction ws arbitrary: st) simp_all

lemma write_all_content [simp]:
  "content (write_all name ws st) name = content st name @ concat ws"
  by (induction ws arbitrary: st) (simp_all add: content_def)

lemma write_all_other [simp]:
  "other \<noteq> name \<Longrightarrow> files (write_all name ws st) other = files st other"
  by (induction ws arbitrary: st) simp_all

lemma write_all_exists [simp]:
  "name \<in> dom (files st) \<Longrightarrow> name \<in> dom (files (write_all name ws st))"
  by (induction ws arbitrary: st) (simp_all add: domIff)


lemma write_all_Nil [simp]: "write_all name [] st = st"
  by simp

declare write_all.simps [simp del]

lemma fetched_writes [simp]: "fetched (map (Write name) ws) = []"
  by (induction ws) simp_all

lemma opened_writes [simp]: "opened (map (Write name) ws) = []"
  by (induction ws) simp_all

lemma written_writes [simp]: "written (map (Write name) ws) = map (Pair name) ws"
  by (induction ws) simp_all

lemma write_paragraphs_separated:
  "n = i + length ps \<Longrightarrow> write_paragraphs i n ps = separated ps"
proof (induction ps arbitrary: i rule: separated.induct)
  case 1
  then show ?case by simp
next
  case (2 t)
  then show ?case by simp
next
  case (3 t u rest)
  from 3 have "write_paragraphs (i + 1) n (u # rest) = separated (u # rest)"
    by simp
  with 3(2) show ?case by simp
qed

lemma write_calls_W: "write_calls W ps = separated ps"
  by (simp add: write_calls_def write_paragraphs_separated)

lemma write_calls_A:
  "write_calls A ps = (if ps = [] then [] else page_separator # separated ps)"
  by (simp add: write_calls_def write_paragraphs_separated)

section \<open>Claims about the writer\<close>

text \<open>
  C4. The writer writes the paragraphs of a page separated by exactly one two-newline
  sequence, with nothing after the last one. On a page after the first (append mode) that
  has a paragraph, a two-newline separator is written before them. On a page after the
  first without paragraphs, the file is not opened and nothing is written.
\<close>

theorem save_page_layout:
  "write_calls W paragraphs = separated paragraphs
   \<and> (paragraphs \<noteq> [] \<longrightarrow> write_calls A paragraphs = page_separator # separated paragraphs)
   \<and> (paragraphs \<noteq> [] \<or> file_mode = W \<longrightarrow>
        fst (save_page None (Some name) file_mode paragraphs url st) = Written
        \<and> written (trace (snd (save_page None (Some name) file_mode paragraphs url st)))
            = written (trace st) @ map (Pair name) (write_calls file_mode paragraphs)
        \<and> content (snd (save_page None (Some name) file_mode paragraphs url st)) name
            = (case file_mode of W \<Rightarrow> [] | A \<Rightarrow> content st name)
                @ concat (write_calls file_mode paragraphs))
   \<and> fst (save_page fault filename A [] url st) = Written
   \<and> files (snd (save_page fault filename A [] url st)) = files st
   \<and> trace (snd (save_page fault filename A [] url st))
       = trace st @ [Print (MsgNothingToAdd url)]"
  by (simp add: write_calls_W write_calls_A save_page_def)


theorem save_page_layout_witness:
  "[str ''a'', str ''b'', str ''c''] \<noteq> []
   \<and> write_calls W [str ''a'', str ''b'', str ''c'']
       = [str ''a'', [10, 10], str ''b'', [10, 10], str ''c'']
   \<and> write_calls A [str ''a'', str ''b'', str ''c'']
       = [[10, 10], str ''a'', [10, 10], str ''b'', [10, 10], str ''c'']
   \<and> content (snd (save_page None (Some (str ''t.txt'')) A [str ''a'', str ''b'', str ''c'']
        (str ''http://x/2'')
        (initial_state (str ''http://x/1'') [str ''t.txt'' \<mapsto> str ''x'']))) (str ''t.txt'')
       = str ''x'' @ [10, 10] @ str ''a'' @ [10, 10] @ str ''b'' @ [10, 10] @ str ''c''
   \<and> content (snd (save_page None (Some (str ''t.txt'')) W [] (str ''http://x/1'')
        (initial_state (str ''http://x/1'') [str ''t.txt'' \<mapsto> str ''x'']))) (str ''t.txt'')
       = []
   \<and> files (snd (save_page None (Some (str ''t.txt'')) A [] (str ''http://x/2'')
        (initial_state (str ''http://x/1'') [str ''t.txt'' \<mapsto> str ''x''])))
       = [str ''t.txt'' \<mapsto> str ''x'']"
  using
    save_page_layout [where paragraphs = "[str ''a'', str ''b'', str ''c'']"
      and file_mode = A and name = "str ''t.txt''" and url = "str ''http://x/2''"
      and st = "initial_state (str ''http://x/1'') [str ''t.txt'' \<mapsto> str ''x'']"
      and fault = None and filename = "Some (str ''t.txt'')"]
    save_page_layout [where paragraphs = "[]"
      and file_mode = W and name = "str ''t.txt''" and url = "str ''http://x/1''"
      and st = "initial_state (str ''http://x/1'') [str ''t.txt'' \<mapsto> str ''x'']"
      and fault = None and filename = "Some (str ''t.txt'')"]
  by (simp add: page_separator_def content_def initial_state_def)

section \<open>Effects of writing a page and of resolving the next URL\<close>

lemma save_page_vars [simp]:
  "current_url (snd (save_page f fn fm ps url st)) = current_url st"
  "output_filename (snd (save_page f fn fm ps url st)) = output_filename st"
  "first_page_processed (snd (save_page f fn fm ps url st)) = first_page_processed st"
  "iterations (snd (save_page f fn fm ps url st)) = iterations st"
  "crashed (snd (save_page f fn fm ps url st)) = crashed st"
  "fetched (trace (snd (save_page f fn fm ps url st))) = fetched (trace st)"
  by (simp_all add: save_page_def split: option.splits nat.splits)


lemma save_page_outcome:
  "fst (save_page f (Some name) fm ps url st) = (if (ps \<noteq> [] \<or> fm = W) \<and> f \<noteq> None then IOError else Written)"
  by (simp add: save_page_def split: option.splits nat.splits)

lemma save_page_other:
  "other \<noteq> name \<Longrightarrow> files (snd (save_page f (Some name) fm ps url st)) other = files st other"
  by (simp add: save_page_def split: option.splits nat.splits)



lemma take_separator: "take 2 (page_separator @ rest) = page_separator"
  by (simp add: page_separator_def)

lemma save_page_content_A:
  "\<exists>w. content (snd (save_page f (Some name) A ps url st)) name = content st name @ w
     \<and> (w = [] \<or> take 2 w = page_separator)"
proof (cases "ps = []")
  case True
  then show ?thesis by (simp add: save_page_def)
next
  case False
  show ?thesis
  proof (cases f)
    case None
    with False have "content (snd (save_page f (Some name) A ps url st)) name
        = content st name @ (page_separator @ concat (separated ps))"
      by (simp add: save_page_def write_calls_A)
    then show ?thesis
      using take_separator by blast
  next
    case (Some k)
    show ?thesis
    proof (cases k)
      case 0
      with Some False show ?thesis
        by (simp add: save_page_def)
    next
      case (Suc j)
      show ?thesis
      proof (cases j)
        case 0
        with Suc Some False show ?thesis
          by (simp add: save_page_def)
      next
        case (Suc i)
        with \<open>k = Suc j\<close> Some False
        have "content (snd (save_page f (Some name) A ps url st)) name
            = content st name @ (page_separator @ concat (take i (separated ps)))"
          by (simp add: save_page_def write_calls_A)
        then show ?thesis
          using take_separator by blast
      qed
    qed
  qed
qed



lemma save_page_created:
  "name \<in> dom (files (snd (save_page None (Some name) W ps url st)))"
  by (simp add: save_page_def)

lemma resolve_next_vars [simp]:
  "files (resolve_next env soup url st) = files st"
  "output_filename (resolve_next env soup url st) = output_filename st"
  "first_page_processed (resolve_next env soup url st) = first_page_processed st"
  "iterations (resolve_next env soup url st) = iterations st"
  "crashed (resolve_next env soup url st) = crashed st"
  "fetched (trace (resolve_next env soup url st)) = fetched (trace st)"
  "opened (trace (resolve_next env soup url st)) = opened (trace st)"
  "written (trace (resolve_next env soup url st)) = written (trace st)"
  "content (resolve_next env soup url st) name = content st name"
  by (simp_all add: resolve_next_def Let_def content_def stop_def emit_def
      split: resolution.splits)



section \<open>One pass through the loop\<close>

lemma iteration_failure:
  assumes "is_failure (http_get env (iterations st) url)"
  shows "iteration env url st =
    stop (emit [Print (MsgProcessing url), Get url,
                Print (failure_message (http_get env (iterations st) url) url)]
      (st\<lparr>iterations := Suc (iterations st)\<rparr>))"
  using assms
  by (cases "http_get env (iterations st) url") (simp_all add: iteration_def Let_def emit_def)

lemma iteration_first:
  assumes "http_get env (iterations st) url = Response soup" and "\<not> first_page_processed st"
  shows "iteration env url st =
    (let name = output_name env soup;
         r = save_page (io_error env (iterations st)) (Some name) W
               (extract_relevant_paragraphs soup) url
               (emit [Print (MsgProcessing url), Get url, Print (MsgFilename name)]
                  (st\<lparr>iterations := Suc (iterations st), output_filename := Some name,
                      first_page_processed := True\<rparr>))
     in if io_error env (iterations st) = None then resolve_next env soup url (snd r)
        else stop (snd r))"
proof -
  let ?name = "output_name env soup"
  let ?st2 = "emit [Print (MsgProcessing url), Get url, Print (MsgFilename ?name)]
      (st\<lparr>iterations := Suc (iterations st), output_filename := Some ?name,
          first_page_processed := True\<rparr>)"
  let ?r = "save_page (io_error env (iterations st)) (Some ?name) W
      (extract_relevant_paragraphs soup) url ?st2"
  have st2: "emit [Print (MsgFilename ?name)]
      (emit [Print (MsgProcessing url), Get url] (st\<lparr>iterations := Suc (iterations st)\<rparr>)
        \<lparr>output_filename := Some ?name, first_page_processed := True\<rparr>) = ?st2"
    by (simp add: emit_def)
  have "iteration env url st =
      (case ?r of (Written, st3) \<Rightarrow> resolve_next env soup url st3
        | (IOError, st3) \<Rightarrow> stop st3
        | (TypeError, st3) \<Rightarrow> stop (st3\<lparr>crashed := True\<rparr>))"
    using assms by (simp add: iteration_def Let_def output_name_def st2 [unfolded output_name_def])
  also have "\<dots> = (if io_error env (iterations st) = None then resolve_next env soup url (snd ?r)
        else stop (snd ?r))"
    using save_page_outcome [of "io_error env (iterations st)" ?name W
        "extract_relevant_paragraphs soup" url ?st2]
    by (cases ?r) (auto split: write_outcome.splits)
  finally show ?thesis
    by (simp add: Let_def)
qed

lemma iteration_later:
  assumes "http_get env (iterations st) url = Response soup" and "first_page_processed st"
    and "output_filename st = Some name"
  shows "iteration env url st =
    (let ps = extract_relevant_paragraphs soup;
         r = save_page (io_error env (iterations st)) (Some name) A ps url
               (emit [Print (MsgProcessing url), Get url]
                  (st\<lparr>iterations := Suc (iterations st)\<rparr>))
     in if ps \<noteq> [] \<and> io_error env (iterations st) \<noteq> None then stop (snd r)
        else resolve_next env soup url (snd r))"
proof -
  let ?ps = "extract_relevant_paragraphs soup"
  let ?st1 = "emit [Print (MsgProcessing url), Get url] (st\<lparr>iterations := Suc (iterations st)\<rparr>)"
  let ?r = "save_page (io_error env (iterations st)) (Some name) A ?ps url ?st1"
  have "iteration env url st =
      (case ?r of (Written, st3) \<Rightarrow> resolve_next env soup url st3
        | (IOError, st3) \<Rightarrow> stop st3
        | (TypeError, st3) \<Rightarrow> stop (st3\<lparr>crashed := True\<rparr>))"
    using assms by (simp add: iteration_def Let_def)
  also have "\<dots> = (if ?ps \<noteq> [] \<and> io_error env (iterations st) \<noteq> None then stop (snd ?r)
        else resolve_next env soup url (snd ?r))"
    using save_page_outcome [of "io_error env (iterations st)" name A ?ps url ?st1]
    by (cases ?r) (auto split: write_outcome.splits)
  finally show ?thesis
    by (simp add: Let_def)
qed

lemma iteration_crash:
  assumes "http_get env (iterations st) url = Response soup" and "first_page_processed st"
    and "output_filename st = None"
  shows "iteration env url st =
    (let ps = extract_relevant_paragraphs soup;
         st1 = emit [Print (MsgProcessing url), Get url] (st\<lparr>iterations := Suc (iterations st)\<rparr>)
     in if ps \<noteq> [] then stop (emit [UncaughtTypeError] st1\<lparr>crashed := True\<rparr>)
        else resolve_next env soup url (emit [Print (MsgNothingToAdd url)] st1))"
  using assms by (simp add: iteration_def Let_def save_page_def)

lemma iteration_cases [case_names failure first later crash]:
  assumes "is_failure (http_get env (iterations st) url) \<Longrightarrow> P"
    and "\<And>soup. http_get env (iterations st) url = Response soup
      \<Longrightarrow> \<not> first_page_processed st \<Longrightarrow> P"
    and "\<And>soup name. http_get env (iterations st) url = Response soup
      \<Longrightarrow> first_page_processed st \<Longrightarrow> output_filename st = Some name \<Longrightarrow> P"
    and "\<And>soup. http_get env (iterations st) url = Response soup
      \<Longrightarrow> first_page_processed st \<Longrightarrow> output_filename st = None \<Longrightarrow> P"
  shows P
proof (cases "http_get env (iterations st) url")
  case (Response soup)
  then show ?thesis
    using assms(2,3,4) by (cases "first_page_processed st"; cases "output_filename st") auto
qed (use assms(1) in simp_all)

lemma iteration_iterations [simp]: "iterations (iteration env url st) = Suc (iterations st)"
proof (cases env st url rule: iteration_cases)
  case failure
  then show ?thesis by (simp add: iteration_failure)
next
  case (first soup)
  then show ?thesis by (simp add: iteration_first Let_def)
next
  case (later soup name)
  then show ?thesis by (simp add: iteration_later Let_def)
next
  case (crash soup)
  then show ?thesis by (simp add: iteration_crash Let_def)
qed

lemma iteration_fetched [simp]:
  "fetched (trace (iteration env url st)) = fetched (trace st) @ [url]"
proof (cases env st url rule: iteration_cases)
  case failure
  then show ?thesis by (simp add: iteration_failure)
next
  case (first soup)
  then show ?thesis by (simp add: iteration_first Let_def)
next
  case (later soup name)
  then show ?thesis by (simp add: iteration_later Let_def)
next
  case (crash soup)
  then show ?thesis by (simp add: iteration_crash Let_def)
qed


section \<open>The loop\<close>

lemma crawl_steps_stopped [simp]: "\<not> running st \<Longrightarrow> crawl_steps k env st = st"
  by (cases k) simp_all

lemma crawl_steps_Suc:
  "crawl_steps (Suc k) env st =
     (if running (crawl_steps k env st) then loop_body env (crawl_steps k env st)
      else crawl_steps k env st)"
proof (induction k arbitrary: st)
  case 0
  then show ?case by simp
next
  case (Suc k)
  show ?case
  proof (cases "running st")
    case True
    then have "crawl_steps (Suc (Suc k)) env st = crawl_steps (Suc k) env (loop_body env st)"
      by simp
    also have "\<dots> = (if running (crawl_steps k env (loop_body env st))
        then loop_body env (crawl_steps k env (loop_body env st))
        else crawl_steps k env (loop_body env st))"
      by (rule Suc.IH)
    finally show ?thesis
      using True by simp
  next
    case False
    then show ?thesis by simp
  qed
qed


lemma crawl_steps_add:
  "crawl_steps (j + k) env st = crawl_steps k env (crawl_steps j env st)"
proof (induction j arbitrary: st)
  case 0
  then show ?case by simp
next
  case (Suc j)
  then show ?case by (cases "running st") simp_all
qed

lemma running_url: "running st \<Longrightarrow> \<exists>url. current_url st = Some url \<and> url \<noteq> []"
  by (cases "current_url st") (simp_all add: running_def)

lemma loop_body_running:
  "current_url st = Some url \<Longrightarrow> loop_body env st = iteration env url st"
  by (simp add: loop_body_def)

lemma crawl_steps_iterations:
  "running (crawl_steps k env st) \<Longrightarrow> iterations (crawl_steps k env st) = iterations st + k"
proof (induction k)
  case 0
  then show ?case by simp
next
  case (Suc k)
  show ?case
  proof (cases "running (crawl_steps k env st)")
    case True
    then obtain url where "current_url (crawl_steps k env st) = Some url"
      using running_url by blast
    with True Suc.IH show ?thesis
      by (subst crawl_steps_Suc) (simp add: loop_body_running)
  next
    case False
    with Suc.prems show ?thesis
      by (subst (asm) crawl_steps_Suc) simp
  qed
qed

lemma initial_state_simps [simp]:
  "current_url (initial_state u fs) = Some u"
  "output_filename (initial_state u fs) = None"
  "first_page_processed (initial_state u fs) = False"
  "iterations (initial_state u fs) = 0"
  "files (initial_state u fs) = fs"
  "trace (initial_state u fs) = []"
  "crashed (initial_state u fs) = False"
  by (simp_all add: initial_state_def)

section \<open>The example sites\<close>




lemma example_env_simps [simp]:
  "str_lower (example_env get fault) = ascii_lower"
  "urljoin (example_env get fault) = absolute_join"
  "http_get (example_env get fault) = get"
  "io_error (example_env get fault) = fault"
  by (simp_all add: example_env_def)







section \<open>Claims about the loop guard\<close>




section \<open>Claims about network failures\<close>




section \<open>The output file of a run\<close>






section \<open>Claims about the output file\<close>



end
